theory Spec2Isabelle
  imports Main
begin

section \<open>go-xeger: random strings from a regular expression\<close>

text \<open>
  A shallow embedding of \<^verbatim>\<open>xeger.go\<close> (and of its earlier version, which
  used a package-global source and a constant limit).

  \<^item> Go's \<^verbatim>\<open>int\<close> and \<^verbatim>\<open>int64\<close> are taken as 64-bit two's
    complement integers, \<^verbatim>\<open>rune\<close> as a 32-bit one: values are HOL integers and
    every addition, subtraction and multiplication of the source is followed by the
    wrap-around of its type.
  \<^item> A Go string is represented by the sequence of code points it encodes in UTF-8.
    Every string the generator builds is a concatenation of conversions from runes and
    of single ASCII bytes, so it is valid UTF-8 and this sequence determines it.
    Converting a rune that is not a Unicode scalar value (a surrogate, a negative value,
    a value above 0x10FFFF) yields U+FFFD, as Go's conversion does.
  \<^item> A run-time panic is a value of type \<open>panic\<close>; every function that can panic
    returns \<open>panic + result\<close>.
  \<^item> A \<^verbatim>\<open>Source\<close> is an object with one method, \<^verbatim>\<open>Int63()\<close>, that
    returns a value and changes the object's state: a function from a state to a value
    and the next state. Its contract, values in \<open>[0, 2^63)\<close>, is a hypothesis
    where a property needs it.
  \<^item> \<^verbatim>\<open>make\<close> panics for a capacity that is negative or above the largest
    allocation of the runtime, \<open>maxAlloc\<close>. Within that limit an allocation succeeds:
    a machine that runs out of memory stops the program with a fatal error of the
    runtime, which no panic of the program expresses and which is outside this model.
\<close>

subsection \<open>Machine integers\<close>

definition wrap64 :: "int \<Rightarrow> int" where
  "wrap64 x = (x + 2 ^ 63) mod 2 ^ 64 - 2 ^ 63"

definition wrap32 :: "int \<Rightarrow> int" where
  "wrap32 x = (x + 2 ^ 31) mod 2 ^ 32 - 2 ^ 31"

text \<open>Go's \<^verbatim>\<open>%\<close> truncates towards zero: the result has the sign of the dividend.\<close>

definition go_rem :: "int \<Rightarrow> int \<Rightarrow> int" where
  "go_rem a b = sgn a * (\<bar>a\<bar> mod \<bar>b\<bar>)"

text \<open>
  The largest allocation of Go's runtime where addresses have 48 bits (amd64, arm64):
  \<^verbatim>\<open>makeslice\<close> panics when the capacity, in bytes, is above it.
\<close>

definition maxAlloc :: int where
  "maxAlloc = 2 ^ 48"

subsection \<open>Strings and the character tables\<close>

type_synonym gostring = "int list"

definition string_of_rune :: "int \<Rightarrow> gostring" where
  "string_of_rune r =
     (if (0 \<le> r \<and> r < 0xD800) \<or> (0xE000 \<le> r \<and> r \<le> 0x10FFFF) then [r] else [0xFFFD])"

definition string_of_runes :: "int list \<Rightarrow> gostring" where
  "string_of_runes rs = concat (map string_of_rune rs)"

definition ascii_lowercase :: gostring where
  "ascii_lowercase = [97 .. 122]"

definition ascii_uppercase :: gostring where
  "ascii_uppercase = [65 .. 90]"

definition ascii_letters :: gostring where
  "ascii_letters = ascii_lowercase @ ascii_uppercase"

definition digits :: gostring where
  "digits = [48 .. 57]"

text \<open>Space to slash, colon to at-sign, left bracket to backquote, left brace to tilde.\<close>

definition punctuation :: gostring where
  "punctuation = [32 .. 47] @ [58 .. 64] @ [91 .. 96] @ [123 .. 126]"

definition control :: gostring where
  "control = [9, 11, 12, 13]"

definition newline :: gostring where
  "newline = [10]"

definition printable :: gostring where
  "printable = digits @ ascii_letters @ punctuation @ control @ newline"

definition printableNotNL :: gostring where
  "printableNotNL = digits @ ascii_letters @ punctuation @ control"

subsection \<open>The syntax tree of \<^verbatim>\<open>regexp/syntax\<close>\<close>

datatype Op =
    OpNoMatch | OpEmptyMatch | OpLiteral | OpCharClass | OpAnyCharNotNL | OpAnyChar
  | OpBeginLine | OpEndLine | OpBeginText | OpEndText | OpWordBoundary | OpNoWordBoundary
  | OpCapture | OpStar | OpPlus | OpQuest | OpRepeat | OpConcat | OpAlternate

text \<open>The fields of \<^verbatim>\<open>syntax.Regexp\<close> that the generator reads.\<close>

datatype Regexp =
  Regexp (re_Op: Op) (re_Rune: "int list") (re_Sub: "Regexp list") (re_Min: int) (re_Max: int)

subsection \<open>Panics and the source\<close>

datatype panic = DivideByZero | IndexOutOfRange | MakeSliceCapOutOfRange | NilDereference

type_synonym 's Int63 = "'s \<Rightarrow> int \<times> 's"

record 's Source =
  Int63 :: "'s Int63"
  state :: 's

definition defaultLimit :: int where
  "defaultLimit = 10"

text \<open>
  \<^verbatim>\<open>randInt\<close>: the source is read first, then the remainder is taken; a zero
  divisor panics.
\<close>

definition randInt :: "'s Int63 \<Rightarrow> int \<Rightarrow> 's \<Rightarrow> panic + (int \<times> 's)" where
  "randInt int63 n s =
     (case int63 s of (v, s') \<Rightarrow>
        if n = 0 then Inl DivideByZero else Inr (go_rem v n, s'))"

subsection \<open>Character classes\<close>

text \<open>
  The first loop of the \<^verbatim>\<open>OpCharClass\<close> case: \<open>rs\<close> is the part of
  \<^verbatim>\<open>re.Rune\<close> from index \<open>i\<close> on. Reading \<^verbatim>\<open>re.Rune[i+1]\<close> beyond the
  end panics.
\<close>

fun class_sum :: "int list \<Rightarrow> int \<Rightarrow> panic + int" where
  "class_sum [] sm = Inr sm"
| "class_sum [lo] sm = Inl IndexOutOfRange"
| "class_sum (lo # hi # rs) sm = class_sum rs (wrap64 (sm + wrap64 (1 + wrap32 (hi - lo))))"

text \<open>The second loop; leaving it without a return gives the empty string.\<close>

fun class_pick :: "int list \<Rightarrow> int \<Rightarrow> panic + gostring" where
  "class_pick [] index = Inr []"
| "class_pick [lo] index = Inl IndexOutOfRange"
| "class_pick (lo # hi # rs) index =
     (let delta = wrap32 (hi - lo) in
      if index \<le> delta then Inr (string_of_rune (wrap32 (lo + index)))
      else class_pick rs (wrap32 (index - wrap32 (delta + 1))))"

definition generateCharClass :: "'s Int63 \<Rightarrow> int list \<Rightarrow> 's \<Rightarrow> panic + (gostring \<times> 's)" where
  "generateCharClass int63 rune s =
     (case class_sum rune 0 of
        Inl e \<Rightarrow> Inl e
      | Inr sm \<Rightarrow>
         (case randInt int63 sm s of
            Inl e \<Rightarrow> Inl e
          | Inr (r, s') \<Rightarrow>
             (case class_pick rune (wrap32 r) of
                Inl e \<Rightarrow> Inl e
              | Inr str \<Rightarrow> Inr (str, s'))))"

text \<open>Indexing a table: out of range panics.\<close>

definition generateFromTable :: "'s Int63 \<Rightarrow> gostring \<Rightarrow> 's \<Rightarrow> panic + (gostring \<times> 's)" where
  "generateFromTable int63 table s =
     (case randInt int63 (int (length table)) s of
        Inl e \<Rightarrow> Inl e
      | Inr (i, s') \<Rightarrow>
          if 0 \<le> i \<and> i < int (length table) then Inr ([table ! nat i], s')
          else Inl IndexOutOfRange)"

subsection \<open>The generator\<close>

text \<open>
  \<^verbatim>\<open>generateFromRegexp\<close> and \<^verbatim>\<open>generateFromSubexpression\<close>, with its two
  loops: \<open>generateFromSubs\<close> is the inner loop over \<^verbatim>\<open>re.Sub\<close> and
  \<open>generateRepeated\<close> the outer loop, with the number of iterations left. The byte
  slice is allocated first, with the capacity \<^verbatim>\<open>len(re.Sub)*count\<close>: a capacity
  that is negative or above \<open>maxAlloc\<close> panics. A count that is not positive leaves
  the outer loop at once.
\<close>

function generateFromRegexp :: "'s Int63 \<Rightarrow> int \<Rightarrow> Regexp \<Rightarrow> 's \<Rightarrow> panic + (gostring \<times> 's)"
  and generateFromSubexpression ::
    "'s Int63 \<Rightarrow> int \<Rightarrow> Regexp \<Rightarrow> int \<Rightarrow> 's \<Rightarrow> panic + (gostring \<times> 's)"
  and generateRepeated :: "'s Int63 \<Rightarrow> int \<Rightarrow> Regexp \<Rightarrow> nat \<Rightarrow> 's \<Rightarrow> panic + (gostring \<times> 's)"
  and generateFromSubs :: "'s Int63 \<Rightarrow> int \<Rightarrow> Regexp list \<Rightarrow> 's \<Rightarrow> panic + (gostring \<times> 's)"
where
  "generateFromRegexp int63 limit re s =
     (case re_Op re of
        OpLiteral \<Rightarrow> Inr (string_of_runes (re_Rune re), s)
      | OpCharClass \<Rightarrow> generateCharClass int63 (re_Rune re) s
      | OpAnyCharNotNL \<Rightarrow> generateFromTable int63 printableNotNL s
      | OpAnyChar \<Rightarrow> generateFromTable int63 printable s
      | OpCapture \<Rightarrow> generateFromSubexpression int63 limit re 1 s
      | OpStar \<Rightarrow>
          (case randInt int63 (wrap64 (limit + 1)) s of
             Inl e \<Rightarrow> Inl e
           | Inr (r, s') \<Rightarrow> generateFromSubexpression int63 limit re r s')
      | OpPlus \<Rightarrow>
          (case randInt int63 limit s of
             Inl e \<Rightarrow> Inl e
           | Inr (r, s') \<Rightarrow> generateFromSubexpression int63 limit re (wrap64 (r + 1)) s')
      | OpQuest \<Rightarrow>
          (case randInt int63 2 s of
             Inl e \<Rightarrow> Inl e
           | Inr (r, s') \<Rightarrow> generateFromSubexpression int63 limit re r s')
      | OpRepeat \<Rightarrow>
          (let mx = (if re_Max re = - 1 then limit else re_Max re) in
           case randInt int63 (wrap64 (wrap64 (mx - re_Min re) + 1)) s of
             Inl e \<Rightarrow> Inl e
           | Inr (r, s') \<Rightarrow>
               generateFromSubexpression int63 limit re (wrap64 (r + re_Min re)) s')
      | OpConcat \<Rightarrow> generateFromSubexpression int63 limit re 1 s
      | OpAlternate \<Rightarrow>
          (case randInt int63 (int (length (re_Sub re))) s of
             Inl e \<Rightarrow> Inl e
           | Inr (i, s') \<Rightarrow>
               if 0 \<le> i \<and> i < int (length (re_Sub re))
               then generateFromRegexp int63 limit (re_Sub re ! nat i) s'
               else Inl IndexOutOfRange)
      | _ \<Rightarrow> Inr ([], s))"
| "generateFromSubexpression int63 limit re count s =
     (let cap = wrap64 (int (length (re_Sub re)) * count) in
      if cap < 0 \<or> maxAlloc < cap then Inl MakeSliceCapOutOfRange
      else generateRepeated int63 limit re (nat count) s)"
| "generateRepeated int63 limit re 0 s = Inr ([], s)"
| "generateRepeated int63 limit re (Suc n) s =
     (case generateFromSubs int63 limit (re_Sub re) s of
        Inl e \<Rightarrow> Inl e
      | Inr (b, s') \<Rightarrow>
         (case generateRepeated int63 limit re n s' of
            Inl e \<Rightarrow> Inl e
          | Inr (b', s'') \<Rightarrow> Inr (b @ b', s'')))"
| "generateFromSubs int63 limit [] s = Inr ([], s)"
| "generateFromSubs int63 limit (sub # subs) s =
     (case generateFromRegexp int63 limit sub s of
        Inl e \<Rightarrow> Inl e
      | Inr (b, s') \<Rightarrow>
         (case generateFromSubs int63 limit subs s' of
            Inl e \<Rightarrow> Inl e
          | Inr (b', s'') \<Rightarrow> Inr (b @ b', s'')))"
  by pat_completeness auto

lemma size_nth_less_Regexp:
  "i < length (re_Sub re) \<Longrightarrow> size (re_Sub re ! i) < size re"
proof (cases re)
  case (Regexp op rune subs mn mx)
  assume "i < length (re_Sub re)"
  then have "subs ! i \<in> set subs" using Regexp by simp
  then have "size (subs ! i) \<le> size_list size subs"
    by (rule size_list_estimation') simp
  then show ?thesis using Regexp by simp
qed

lemma size_list_less_Regexp: "size_list size (re_Sub re) < size re"
  by (cases re) simp

text \<open>
  Every call descends: from a node to its helper, from the helper to the loops, from the
  outer loop to one iteration fewer, and from the inner loop to a member of
  \<^verbatim>\<open>re.Sub\<close>, a strictly smaller tree.
\<close>

lemma generate_all_dom:
  "All generateFromRegexp_generateFromSubexpression_generateRepeated_generateFromSubs_dom"
  apply (relation "inv_image (less_than <*lex*> less_than <*lex*> less_than)
     (\<lambda>x. case x of
        Inl (Inl (int63, limit, re, s)) \<Rightarrow> (size re, 3::nat, 0::nat)
      | Inl (Inr (int63, limit, re, count, s)) \<Rightarrow> (size re, 2, 0)
      | Inr (Inl (int63, limit, re, n, s)) \<Rightarrow> (size re, 1, n)
      | Inr (Inr (int63, limit, subs, s)) \<Rightarrow> (size_list size subs, 0, 0))")
  apply (auto simp: size_nth_less_Regexp size_list_less_Regexp)
  done

termination generateFromRegexp
  by (rule generate_all_dom)

declare generateFromRegexp.simps [simp del]
declare generateFromSubexpression.simps [simp del]

text \<open>
  The same walk for a generator whose source is nil. The source is used only inside
  \<^verbatim>\<open>randInt\<close>, where calling \<^verbatim>\<open>Int63()\<close> on the nil interface panics: every
  draw becomes this panic, after the argument of \<^verbatim>\<open>randInt\<close> has been computed,
  and a walk that needs no draw ends as it does with a source.
\<close>

function generateFromRegexp_nil :: "Regexp \<Rightarrow> panic + gostring"
  and generateFromSubexpression_nil :: "Regexp \<Rightarrow> int \<Rightarrow> panic + gostring"
  and generateRepeated_nil :: "Regexp \<Rightarrow> nat \<Rightarrow> panic + gostring"
  and generateFromSubs_nil :: "Regexp list \<Rightarrow> panic + gostring"
where
  "generateFromRegexp_nil re =
     (case re_Op re of
        OpLiteral \<Rightarrow> Inr (string_of_runes (re_Rune re))
      | OpCharClass \<Rightarrow>
          (case class_sum (re_Rune re) 0 of
             Inl e \<Rightarrow> Inl e
           | Inr sm \<Rightarrow> Inl NilDereference)
      | OpAnyCharNotNL \<Rightarrow> Inl NilDereference
      | OpAnyChar \<Rightarrow> Inl NilDereference
      | OpCapture \<Rightarrow> generateFromSubexpression_nil re 1
      | OpStar \<Rightarrow> Inl NilDereference
      | OpPlus \<Rightarrow> Inl NilDereference
      | OpQuest \<Rightarrow> Inl NilDereference
      | OpRepeat \<Rightarrow> Inl NilDereference
      | OpConcat \<Rightarrow> generateFromSubexpression_nil re 1
      | OpAlternate \<Rightarrow> Inl NilDereference
      | _ \<Rightarrow> Inr [])"
| "generateFromSubexpression_nil re count =
     (let cap = wrap64 (int (length (re_Sub re)) * count) in
      if cap < 0 \<or> maxAlloc < cap then Inl MakeSliceCapOutOfRange
      else generateRepeated_nil re (nat count))"
| "generateRepeated_nil re 0 = Inr []"
| "generateRepeated_nil re (Suc n) =
     (case generateFromSubs_nil (re_Sub re) of
        Inl e \<Rightarrow> Inl e
      | Inr b \<Rightarrow>
         (case generateRepeated_nil re n of
            Inl e \<Rightarrow> Inl e
          | Inr b' \<Rightarrow> Inr (b @ b')))"
| "generateFromSubs_nil [] = Inr []"
| "generateFromSubs_nil (sub # subs) =
     (case generateFromRegexp_nil sub of
        Inl e \<Rightarrow> Inl e
      | Inr b \<Rightarrow>
         (case generateFromSubs_nil subs of
            Inl e \<Rightarrow> Inl e
          | Inr b' \<Rightarrow> Inr (b @ b')))"
  by pat_completeness auto
termination
  apply (relation "inv_image (less_than <*lex*> less_than <*lex*> less_than)
     (\<lambda>x. case x of
        Inl (Inl re) \<Rightarrow> (size re, 3::nat, 0::nat)
      | Inl (Inr (re, count)) \<Rightarrow> (size re, 2, 0)
      | Inr (Inl (re, n)) \<Rightarrow> (size re, 1, n)
      | Inr (Inr subs) \<Rightarrow> (size_list size subs, 0, 0))")
  apply (auto simp: size_list_less_Regexp)
  done

declare generateFromRegexp_nil.simps [simp del]
declare generateFromSubexpression_nil.simps [simp del]

subsection \<open>Construction\<close>

record 's Xeger =
  x_re :: Regexp
  x_source :: "'s Source option"
  x_limit :: int

text \<open>
  An option is a function that updates the \<^verbatim>\<open>Xeger\<close>; \<^verbatim>\<open>WithSource\<close> may be
  given a nil interface value.
\<close>

datatype 's xeger_option = WithSource "'s Source option" | WithLimit int

fun apply_option :: "'s xeger_option \<Rightarrow> 's Xeger \<Rightarrow> 's Xeger" where
  "apply_option (WithSource src) x = x\<lparr>x_source := src\<rparr>"
| "apply_option (WithLimit lim) x = x\<lparr>x_limit := lim\<rparr>"

text \<open>
  \<^verbatim>\<open>syntax.Parse\<close> (with the Perl flags) and the time-seeded default source are
  outside the repository: they are parameters of the constructor.
\<close>

definition NewXeger ::
  "(string \<Rightarrow> 'e + Regexp) \<Rightarrow> 's Source \<Rightarrow> string \<Rightarrow> 's xeger_option list \<Rightarrow> 'e + 's Xeger"
where
  "NewXeger Parse defaultSource regex opts =
     (case Parse regex of
        Inl err \<Rightarrow> Inl err
      | Inr re \<Rightarrow>
         (let x = fold apply_option opts \<lparr>x_re = re, x_source = None, x_limit = 0\<rparr>;
              x = (if x_source x = None then x\<lparr>x_source := Some defaultSource\<rparr> else x);
              x = (if x_limit x \<le> 0 then x\<lparr>x_limit := defaultLimit\<rparr> else x)
          in Inr x))"

text \<open>
  \<^verbatim>\<open>Generate\<close> returns the string and leaves the source in its new state. With a
  nil source (which the constructor never leaves) it panics at the first draw.
\<close>

definition Generate :: "'s Xeger \<Rightarrow> panic + (gostring \<times> 's Xeger)" where
  "Generate x =
     (case x_source x of
        None \<Rightarrow>
         (case generateFromRegexp_nil (x_re x) of
            Inl e \<Rightarrow> Inl e
          | Inr str \<Rightarrow> Inr (str, x))
      | Some src \<Rightarrow>
         (case generateFromRegexp (Int63 src) (x_limit x) (x_re x) (state src) of
            Inl e \<Rightarrow> Inl e
          | Inr (str, s') \<Rightarrow> Inr (str, x\<lparr>x_source := Some (src\<lparr>state := s'\<rparr>)\<rparr>)))"

text \<open>The string a call of \<^verbatim>\<open>Generate\<close> returns, or its panic.\<close>

definition generated :: "'s Xeger \<Rightarrow> panic + gostring" where
  "generated x = map_sum id fst (Generate x)"

text \<open>The code points of an ASCII string literal.\<close>

definition runes :: "string \<Rightarrow> gostring" where
  "runes str = map (\<lambda>c. int (of_char c)) str"

text \<open>A source that returns the same value at every call.\<close>

definition forced :: "int \<Rightarrow> unit Source" where
  "forced v = \<lparr>Int63 = (\<lambda>s. (v, s)), state = ()\<rparr>"

text \<open>The tree \<^verbatim>\<open>syntax.Parse\<close> gives for the pattern \<^verbatim>\<open>a{2,4}\<close>.\<close>

definition re_a_2_4 :: Regexp where
  "re_a_2_4 = Regexp OpRepeat [] [Regexp OpLiteral [97] [] 0 0] 2 4"

subsection \<open>Repetition counts\<close>

text \<open>
  The count that the \<^verbatim>\<open>OpStar\<close>, \<^verbatim>\<open>OpPlus\<close>, \<^verbatim>\<open>OpQuest\<close> and
  \<^verbatim>\<open>OpRepeat\<close> cases of \<^verbatim>\<open>generateFromRegexp\<close> pass to
  \<^verbatim>\<open>generateFromSubexpression\<close>; \<^verbatim>\<open>OpCapture\<close> and \<^verbatim>\<open>OpConcat\<close>
  pass the constant 1, and no other operator has a count (the value 1 stands there).
\<close>

definition repeatCount :: "'s Int63 \<Rightarrow> int \<Rightarrow> Regexp \<Rightarrow> 's \<Rightarrow> panic + (int \<times> 's)" where
  "repeatCount int63 limit re s =
     (case re_Op re of
        OpStar \<Rightarrow> randInt int63 (wrap64 (limit + 1)) s
      | OpPlus \<Rightarrow>
          (case randInt int63 limit s of
             Inl e \<Rightarrow> Inl e
           | Inr (r, s') \<Rightarrow> Inr (wrap64 (r + 1), s'))
      | OpQuest \<Rightarrow> randInt int63 2 s
      | OpRepeat \<Rightarrow>
          (let mx = (if re_Max re = - 1 then limit else re_Max re) in
           case randInt int63 (wrap64 (wrap64 (mx - re_Min re) + 1)) s of
             Inl e \<Rightarrow> Inl e
           | Inr (r, s') \<Rightarrow> Inr (wrap64 (r + re_Min re), s'))
      | _ \<Rightarrow> Inr (1, s))"

text \<open>
  The bounds the specification gives per operator: \<open>[0, cap]\<close> for a star,
  \<open>[1, cap]\<close> for a plus, \<open>{0, 1}\<close> for a quest, and \<open>[min, max]\<close> for a
  repeat, with the cap in place of an unbounded maximum.
\<close>

definition repetitions_within :: "int \<Rightarrow> Regexp \<Rightarrow> int \<Rightarrow> bool" where
  "repetitions_within cap re c =
     (case re_Op re of
        OpStar \<Rightarrow> 0 \<le> c \<and> c \<le> cap
      | OpPlus \<Rightarrow> 1 \<le> c \<and> c \<le> cap
      | OpQuest \<Rightarrow> c = 0 \<or> c = 1
      | OpRepeat \<Rightarrow> re_Min re \<le> c \<and> c \<le> (if re_Max re = - 1 then cap else re_Max re)
      | _ \<Rightarrow> c = 1)"

text \<open>
  The trees of the patterns \<^verbatim>\<open>a*\<close>, \<^verbatim>\<open>a{11,}\<close> and \<^verbatim>\<open>a{20,}\<close>.
\<close>

definition re_a_star :: Regexp where
  "re_a_star = Regexp OpStar [] [Regexp OpLiteral [97] [] 0 0] 0 0"

definition re_a_11 :: Regexp where
  "re_a_11 = Regexp OpRepeat [] [Regexp OpLiteral [97] [] 0 0] 11 (- 1)"

definition re_a_20 :: Regexp where
  "re_a_20 = Regexp OpRepeat [] [Regexp OpLiteral [97] [] 0 0] 20 (- 1)"

subsection \<open>Character classes as the specification describes them\<close>

text \<open>
  The data model: an ordered list of inclusive pairs \<open>(low, high)\<close> of code points,
  disjoint and in increasing order. \<open>ranges_from lb rs\<close> holds when \<open>rs\<close> is such
  a list with every code point at least \<open>lb\<close>.
\<close>

fun ranges_from :: "int \<Rightarrow> int list \<Rightarrow> bool" where
  "ranges_from lb [] = True"
| "ranges_from lb [lo] = False"
| "ranges_from lb (lo # hi # rs) =
     (lb \<le> lo \<and> lo \<le> hi \<and> hi \<le> 0x10FFFF \<and> ranges_from (hi + 1) rs)"

text \<open>A normalized class.\<close>

definition normalized :: "int list \<Rightarrow> bool" where
  "normalized rs = ranges_from 0 rs"

text \<open>The number of code points of a class: each range contributes \<open>high - low + 1\<close>.\<close>

fun range_total :: "int list \<Rightarrow> int" where
  "range_total (lo # hi # rs) = (hi - lo + 1) + range_total rs"
| "range_total rs = 0"

text \<open>A code point lies inside one of the ranges.\<close>

fun in_ranges :: "int list \<Rightarrow> int \<Rightarrow> bool" where
  "in_ranges (lo # hi # rs) c = ((lo \<le> c \<and> c \<le> hi) \<or> in_ranges rs c)"
| "in_ranges rs c = False"

text \<open>
  The walk of the specification: subtract the size of each range from the index until it
  falls within the current range, then take \<open>low + index\<close>.
\<close>

fun nth_code_point :: "int list \<Rightarrow> int \<Rightarrow> int" where
  "nth_code_point (lo # hi # rs) i =
     (if i \<le> hi - lo then lo + i else nth_code_point rs (i - (hi - lo + 1)))"
| "nth_code_point rs i = 0"

text \<open>The position of a code point in the class, the inverse of the walk.\<close>

fun index_of :: "int list \<Rightarrow> int \<Rightarrow> int" where
  "index_of (lo # hi # rs) c =
     (if lo \<le> c \<and> c \<le> hi then c - lo else (hi - lo + 1) + index_of rs c)"
| "index_of rs c = 0"

subsection \<open>The earlier version of the package\<close>

text \<open>
  The earlier version has no options: the source is the package-global variable
  \<^verbatim>\<open>src\<close> and the limit the constant 10. The global source is the parameter
  \<open>src\<close> of every function, with its state passed along; the names carry the suffix
  \<open>_old\<close>.
\<close>

definition limit_old :: int where
  "limit_old = 10"

text \<open>\<^verbatim>\<open>randInt\<close> of the earlier version reads the package-global source.\<close>

definition randInt_old :: "'s Int63 \<Rightarrow> int \<Rightarrow> 's \<Rightarrow> panic + (int \<times> 's)" where
  "randInt_old src n s =
     (case src s of (v, s') \<Rightarrow>
        if n = 0 then Inl DivideByZero else Inr (go_rem v n, s'))"

definition generateCharClass_old :: "'s Int63 \<Rightarrow> int list \<Rightarrow> 's \<Rightarrow> panic + (gostring \<times> 's)" where
  "generateCharClass_old src rune s =
     (case class_sum rune 0 of
        Inl e \<Rightarrow> Inl e
      | Inr sm \<Rightarrow>
         (case randInt_old src sm s of
            Inl e \<Rightarrow> Inl e
          | Inr (r, s') \<Rightarrow>
             (case class_pick rune (wrap32 r) of
                Inl e \<Rightarrow> Inl e
              | Inr str \<Rightarrow> Inr (str, s'))))"

definition generateFromTable_old :: "'s Int63 \<Rightarrow> gostring \<Rightarrow> 's \<Rightarrow> panic + (gostring \<times> 's)" where
  "generateFromTable_old src table s =
     (case randInt_old src (int (length table)) s of
        Inl e \<Rightarrow> Inl e
      | Inr (i, s') \<Rightarrow>
          if 0 \<le> i \<and> i < int (length table) then Inr ([table ! nat i], s')
          else Inl IndexOutOfRange)"

function generateFromRegexp_old :: "'s Int63 \<Rightarrow> Regexp \<Rightarrow> 's \<Rightarrow> panic + (gostring \<times> 's)"
  and generateFromSubexpression_old :: "'s Int63 \<Rightarrow> Regexp \<Rightarrow> int \<Rightarrow> 's \<Rightarrow> panic + (gostring \<times> 's)"
  and generateRepeated_old :: "'s Int63 \<Rightarrow> Regexp \<Rightarrow> nat \<Rightarrow> 's \<Rightarrow> panic + (gostring \<times> 's)"
  and generateFromSubs_old :: "'s Int63 \<Rightarrow> Regexp list \<Rightarrow> 's \<Rightarrow> panic + (gostring \<times> 's)"
where
  "generateFromRegexp_old src re s =
     (case re_Op re of
        OpLiteral \<Rightarrow> Inr (string_of_runes (re_Rune re), s)
      | OpCharClass \<Rightarrow> generateCharClass_old src (re_Rune re) s
      | OpAnyCharNotNL \<Rightarrow> generateFromTable_old src printableNotNL s
      | OpAnyChar \<Rightarrow> generateFromTable_old src printable s
      | OpCapture \<Rightarrow> generateFromSubexpression_old src re 1 s
      | OpStar \<Rightarrow>
          (case randInt_old src (wrap64 (limit_old + 1)) s of
             Inl e \<Rightarrow> Inl e
           | Inr (r, s') \<Rightarrow> generateFromSubexpression_old src re r s')
      | OpPlus \<Rightarrow>
          (case randInt_old src limit_old s of
             Inl e \<Rightarrow> Inl e
           | Inr (r, s') \<Rightarrow> generateFromSubexpression_old src re (wrap64 (r + 1)) s')
      | OpQuest \<Rightarrow>
          (case randInt_old src 2 s of
             Inl e \<Rightarrow> Inl e
           | Inr (r, s') \<Rightarrow> generateFromSubexpression_old src re r s')
      | OpRepeat \<Rightarrow>
          (let mx = (if re_Max re = - 1 then limit_old else re_Max re) in
           case randInt_old src (wrap64 (wrap64 (mx - re_Min re) + 1)) s of
             Inl e \<Rightarrow> Inl e
           | Inr (r, s') \<Rightarrow>
               generateFromSubexpression_old src re (wrap64 (r + re_Min re)) s')
      | OpConcat \<Rightarrow> generateFromSubexpression_old src re 1 s
      | OpAlternate \<Rightarrow>
          (case randInt_old src (int (length (re_Sub re))) s of
             Inl e \<Rightarrow> Inl e
           | Inr (i, s') \<Rightarrow>
               if 0 \<le> i \<and> i < int (length (re_Sub re))
               then generateFromRegexp_old src (re_Sub re ! nat i) s'
               else Inl IndexOutOfRange)
      | _ \<Rightarrow> Inr ([], s))"
| "generateFromSubexpression_old src re count s =
     (let cap = wrap64 (int (length (re_Sub re)) * count) in
      if cap < 0 \<or> maxAlloc < cap then Inl MakeSliceCapOutOfRange
      else generateRepeated_old src re (nat count) s)"
| "generateRepeated_old src re 0 s = Inr ([], s)"
| "generateRepeated_old src re (Suc n) s =
     (case generateFromSubs_old src (re_Sub re) s of
        Inl e \<Rightarrow> Inl e
      | Inr (b, s') \<Rightarrow>
         (case generateRepeated_old src re n s' of
            Inl e \<Rightarrow> Inl e
          | Inr (b', s'') \<Rightarrow> Inr (b @ b', s'')))"
| "generateFromSubs_old src [] s = Inr ([], s)"
| "generateFromSubs_old src (sub # subs) s =
     (case generateFromRegexp_old src sub s of
        Inl e \<Rightarrow> Inl e
      | Inr (b, s') \<Rightarrow>
         (case generateFromSubs_old src subs s' of
            Inl e \<Rightarrow> Inl e
          | Inr (b', s'') \<Rightarrow> Inr (b @ b', s'')))"
  by pat_completeness auto
termination generateFromRegexp_old
  apply (relation "inv_image (less_than <*lex*> less_than <*lex*> less_than)
     (\<lambda>x. case x of
        Inl (Inl (src, re, s)) \<Rightarrow> (size re, 3::nat, 0::nat)
      | Inl (Inr (src, re, count, s)) \<Rightarrow> (size re, 2, 0)
      | Inr (Inl (src, re, n, s)) \<Rightarrow> (size re, 1, n)
      | Inr (Inr (src, subs, s)) \<Rightarrow> (size_list size subs, 0, 0))")
  apply (auto simp: size_nth_less_Regexp size_list_less_Regexp)
  done

declare generateFromRegexp_old.simps [simp del]
declare generateFromSubexpression_old.simps [simp del]

record Xeger_old =
  re_old :: Regexp

definition NewXeger_old :: "(string \<Rightarrow> 'e + Regexp) \<Rightarrow> string \<Rightarrow> 'e + Xeger_old" where
  "NewXeger_old Parse regex =
     (case Parse regex of
        Inl err \<Rightarrow> Inl err
      | Inr re \<Rightarrow> Inr \<lparr>re_old = re\<rparr>)"

definition Generate_old :: "'s Int63 \<Rightarrow> Xeger_old \<Rightarrow> 's \<Rightarrow> panic + (gostring \<times> 's)" where
  "Generate_old src x s = generateFromRegexp_old src (re_old x) s"

subsection \<open>Sequences of drawn values\<close>

text \<open>The \<open>n\<close>-th value a source in state \<open>s\<close> returns.\<close>

fun draws :: "'s Int63 \<Rightarrow> 's \<Rightarrow> nat \<Rightarrow> int" where
  "draws int63 s 0 = fst (int63 s)"
| "draws int63 s (Suc n) = draws int63 (snd (int63 s)) n"

text \<open>Two sources, in given states, return the same sequence of values.\<close>

definition same_sequence :: "'s Int63 \<Rightarrow> 's \<Rightarrow> 't Int63 \<Rightarrow> 't \<Rightarrow> bool" where
  "same_sequence f s g t = (\<forall>n. draws f s n = draws g t n)"

text \<open>
  Two runs end alike: with the same panic, or with the same result and with sources that
  go on returning the same values.
\<close>

definition same_outcome ::
  "'s Int63 \<Rightarrow> 't Int63 \<Rightarrow> panic + ('a \<times> 's) \<Rightarrow> panic + ('a \<times> 't) \<Rightarrow> bool" where
  "same_outcome f g r1 r2 =
     (case r1 of
        Inl e1 \<Rightarrow> r2 = Inl e1
      | Inr (b1, s1) \<Rightarrow> (\<exists>s2. r2 = Inr (b1, s2) \<and> same_sequence f s1 g s2))"

subsection \<open>Matching\<close>

text \<open>
  What it means for a string to match a tree, after the comments of the cases of
  \<^verbatim>\<open>generateFromRegexp\<close> (the operators of \<^verbatim>\<open>regexp/syntax\<close>):
  \<open>matches re pre s post\<close> holds when \<open>s\<close> matches \<open>re\<close> where the subject is
  \<open>pre @ s @ post\<close>; the context decides the zero-width assertions. A word character
  is an ASCII letter, a digit or the underscore. The tree has no flags: a literal matches
  its own runes (a case-folding literal matches these and more).
\<close>

definition is_word_char :: "int \<Rightarrow> bool" where
  "is_word_char c = ((48 \<le> c \<and> c \<le> 57) \<or> (65 \<le> c \<and> c \<le> 90) \<or> (97 \<le> c \<and> c \<le> 122) \<or> c = 95)"

definition word_before :: "gostring \<Rightarrow> bool" where
  "word_before pre = (pre \<noteq> [] \<and> is_word_char (last pre))"

definition word_after :: "gostring \<Rightarrow> bool" where
  "word_after post = (post \<noteq> [] \<and> is_word_char (hd post))"

inductive matches :: "Regexp \<Rightarrow> gostring \<Rightarrow> gostring \<Rightarrow> gostring \<Rightarrow> bool"
  and matches_seq :: "Regexp list \<Rightarrow> gostring \<Rightarrow> gostring \<Rightarrow> gostring \<Rightarrow> bool"
  and matches_rep :: "Regexp \<Rightarrow> nat \<Rightarrow> gostring \<Rightarrow> gostring \<Rightarrow> gostring \<Rightarrow> bool"
where
  m_EmptyMatch: "re_Op re = OpEmptyMatch \<Longrightarrow> matches re pre [] post"
| m_Literal: "re_Op re = OpLiteral \<Longrightarrow> matches re pre (re_Rune re) post"
| m_CharClass: "re_Op re = OpCharClass \<Longrightarrow> in_ranges (re_Rune re) c \<Longrightarrow> matches re pre [c] post"
| m_AnyCharNotNL: "re_Op re = OpAnyCharNotNL \<Longrightarrow> c \<noteq> 10 \<Longrightarrow> matches re pre [c] post"
| m_AnyChar: "re_Op re = OpAnyChar \<Longrightarrow> matches re pre [c] post"
| m_BeginLine: "re_Op re = OpBeginLine \<Longrightarrow> pre = [] \<or> last pre = 10 \<Longrightarrow> matches re pre [] post"
| m_EndLine: "re_Op re = OpEndLine \<Longrightarrow> post = [] \<or> hd post = 10 \<Longrightarrow> matches re pre [] post"
| m_BeginText: "re_Op re = OpBeginText \<Longrightarrow> matches re [] [] post"
| m_EndText: "re_Op re = OpEndText \<Longrightarrow> matches re pre [] []"
| m_WordBoundary:
    "re_Op re = OpWordBoundary \<Longrightarrow> word_before pre \<noteq> word_after post \<Longrightarrow> matches re pre [] post"
| m_NoWordBoundary:
    "re_Op re = OpNoWordBoundary \<Longrightarrow> word_before pre = word_after post \<Longrightarrow> matches re pre [] post"
| m_Capture:
    "re_Op re = OpCapture \<Longrightarrow> re_Sub re = [sub] \<Longrightarrow> matches sub pre s post \<Longrightarrow> matches re pre s post"
| m_Star:
    "re_Op re = OpStar \<Longrightarrow> re_Sub re = [sub] \<Longrightarrow> matches_rep sub n pre s post \<Longrightarrow> matches re pre s post"
| m_Plus:
    "re_Op re = OpPlus \<Longrightarrow> re_Sub re = [sub] \<Longrightarrow> matches_rep sub n pre s post \<Longrightarrow> 1 \<le> n
     \<Longrightarrow> matches re pre s post"
| m_Quest:
    "re_Op re = OpQuest \<Longrightarrow> re_Sub re = [sub] \<Longrightarrow> matches_rep sub n pre s post \<Longrightarrow> n \<le> 1
     \<Longrightarrow> matches re pre s post"
| m_Repeat:
    "re_Op re = OpRepeat \<Longrightarrow> re_Sub re = [sub] \<Longrightarrow> matches_rep sub n pre s post
     \<Longrightarrow> re_Min re \<le> int n \<Longrightarrow> re_Max re = - 1 \<or> int n \<le> re_Max re
     \<Longrightarrow> matches re pre s post"
| m_Concat: "re_Op re = OpConcat \<Longrightarrow> matches_seq (re_Sub re) pre s post \<Longrightarrow> matches re pre s post"
| m_Alternate:
    "re_Op re = OpAlternate \<Longrightarrow> sub \<in> set (re_Sub re) \<Longrightarrow> matches sub pre s post
     \<Longrightarrow> matches re pre s post"
| m_seq_Nil: "matches_seq [] pre [] post"
| m_seq_Cons:
    "matches sub pre s1 (s2 @ post) \<Longrightarrow> matches_seq subs (pre @ s1) s2 post
     \<Longrightarrow> matches_seq (sub # subs) pre (s1 @ s2) post"
| m_rep_0: "matches_rep sub 0 pre [] post"
| m_rep_Suc:
    "matches sub pre s1 (s2 @ post) \<Longrightarrow> matches_rep sub n (pre @ s1) s2 post
     \<Longrightarrow> matches_rep sub (Suc n) pre (s1 @ s2) post"



text \<open>The \<open>n\<close>-fold repetition of the concatenation of a list of trees.\<close>

inductive matches_loop :: "Regexp list \<Rightarrow> nat \<Rightarrow> gostring \<Rightarrow> gostring \<Rightarrow> gostring \<Rightarrow> bool" where
  m_loop_0: "matches_loop subs 0 pre [] post"
| m_loop_Suc:
    "matches_seq subs pre s1 (s2 @ post) \<Longrightarrow> matches_loop subs n (pre @ s1) s2 post
     \<Longrightarrow> matches_loop subs (Suc n) pre (s1 @ s2) post"


text \<open>No range of the class meets the surrogates.\<close>

fun surrogate_free :: "int list \<Rightarrow> bool" where
  "surrogate_free (lo # hi # rs) = ((hi < 0xD800 \<or> 0xDFFF < lo) \<and> surrogate_free rs)"
| "surrogate_free rs = True"






section \<open>Properties\<close>

subsection \<open>Arithmetic helpers\<close>

lemma wrap64_id: "- (2 ^ 63) \<le> x \<Longrightarrow> x < 2 ^ 63 \<Longrightarrow> wrap64 x = x"
  by (simp add: wrap64_def)

lemma wrap32_id: "- (2 ^ 31) \<le> x \<Longrightarrow> x < 2 ^ 31 \<Longrightarrow> wrap32 x = x"
  by (simp add: wrap32_def)

lemma go_rem_nonneg: "0 \<le> a \<Longrightarrow> 0 < b \<Longrightarrow> go_rem a b = a mod b"
  by (cases "a = 0") (simp_all add: go_rem_def)

lemma randInt_Inr:
  "int63 s = (v, s') \<Longrightarrow> 0 \<le> v \<Longrightarrow> 0 < n \<Longrightarrow> randInt int63 n s = Inr (v mod n, s')"
  by (simp add: randInt_def go_rem_nonneg)

lemma go_rem_neg_divisor: "0 \<le> v \<Longrightarrow> v < b \<Longrightarrow> go_rem v (- b) = v"
  by (cases "v = 0") (simp_all add: go_rem_def)

lemma randInt_succ_bound:
  assumes "int63 s = (v, s')" "0 \<le> v" "v < 2 ^ 63" "0 \<le> m" "m < 2 ^ 63"
  shows "\<exists>r. randInt int63 (wrap64 (m + 1)) s = Inr (r, s') \<and> 0 \<le> r \<and> r \<le> m"
proof (cases "m = 2 ^ 63 - 1")
  case True
  then have "wrap64 (m + 1) = - (2 ^ 63)" by (simp add: wrap64_def)
  moreover have "go_rem v (- (2 ^ 63)) = v" using assms by (intro go_rem_neg_divisor)
  ultimately show ?thesis using assms True by (simp add: randInt_def)
next
  case False
  then have w: "wrap64 (m + 1) = m + 1" using assms by (intro wrap64_id) simp_all
  have "randInt int63 (m + 1) s = Inr (v mod (m + 1), s')"
    using assms by (intro randInt_Inr) simp_all
  moreover have "0 \<le> v mod (m + 1)" "v mod (m + 1) \<le> m"
    using assms pos_mod_bound [of "m + 1" v] by simp_all
  ultimately show ?thesis using w by simp
qed

lemma generateFromRegexp_repeatCount:
  assumes "re_Op re \<in> {OpStar, OpPlus, OpQuest, OpRepeat}"
  shows "generateFromRegexp int63 limit re s =
     (case repeatCount int63 limit re s of
        Inl e \<Rightarrow> Inl e
      | Inr (c, s') \<Rightarrow> generateFromSubexpression int63 limit re c s')"
  using assms
  by (cases "re_Op re")
     (simp_all add: generateFromRegexp.simps [of int63 limit re s] repeatCount_def Let_def
      split: sum.split prod.split)

subsection \<open>The uniform draw\<close>

text \<open>
  C7. For \<open>n > 0\<close> and a source whose \<^verbatim>\<open>Int63()\<close> returns a value \<open>v\<close> in
  \<open>[0, 2^63)\<close>, \<^verbatim>\<open>randInt(n)\<close> does not panic and returns \<open>v mod n\<close>, a
  non-negative integer below \<open>n\<close>; the source moves to its next state.
\<close>

theorem randInt_in_range:
  assumes "0 < n" and "int63 s = (v, s')" and "0 \<le> v" and "v < 2 ^ 63"
  shows "randInt int63 n s = Inr (v mod n, s') \<and> 0 \<le> v mod n \<and> v mod n < n"
  using assms by (simp add: randInt_def go_rem_nonneg)

theorem randInt_in_range_witness:
  "randInt (\<lambda>s::nat. (7, Suc s)) 3 0 = Inr (1, 1) \<and> (0::int) \<le> 7 mod 3 \<and> (7::int) mod 3 < 3"
  using randInt_in_range [of 3 "\<lambda>s::nat. (7, Suc s)" 0 7 1] by simp

subsection \<open>The bounded repetition of scenario 6\<close>

text \<open>
  C2 as stated: for the pattern \<^verbatim>\<open>a{2,4}\<close> and a source forced to draw 2,
  \<^verbatim>\<open>Generate()\<close> returns \<^verbatim>\<open>aaa\<close>. It does not: the draw 2 is reduced
  modulo \<open>4 - 2 + 1 = 3\<close>, which leaves 2, and the count is \<open>2 + 2 = 4\<close>.
\<close>

theorem a_2_4_draw_2_counterexample:
  "generated \<lparr>x_re = re_a_2_4, x_source = Some (forced 2), x_limit = 10\<rparr> \<noteq> Inr (runes ''aaa'')"
  by (simp add: generated_def Generate_def forced_def re_a_2_4_def runes_def
      generateFromRegexp.simps generateFromSubexpression.simps maxAlloc_def Let_def randInt_def go_rem_def
      wrap64_def string_of_runes_def string_of_rune_def eval_nat_numeral)

text \<open>
  C2, amended: for the pattern \<^verbatim>\<open>a{2,4}\<close>, whatever the repetition cap, a source
  forced to draw 2 gives \<^verbatim>\<open>aaaa\<close> (minimum 2 plus offset 2), and a source forced to
  draw 1 gives \<^verbatim>\<open>aaa\<close> (minimum 2 plus offset 1).
\<close>

theorem a_2_4_forced_draws:
  "generated \<lparr>x_re = re_a_2_4, x_source = Some (forced 2), x_limit = limit\<rparr> = Inr (runes ''aaaa'')
   \<and> generated \<lparr>x_re = re_a_2_4, x_source = Some (forced 1), x_limit = limit\<rparr> = Inr (runes ''aaa'')"
  by (simp add: generated_def Generate_def forced_def re_a_2_4_def runes_def
      generateFromRegexp.simps generateFromSubexpression.simps maxAlloc_def Let_def randInt_def go_rem_def
      wrap64_def string_of_runes_def string_of_rune_def eval_nat_numeral)

subsection \<open>Termination\<close>

text \<open>
  C8. For every tree, every source and every cap, \<^verbatim>\<open>Generate()\<close> terminates: the
  call of \<^verbatim>\<open>generateFromRegexp\<close> lies in the accessible part of the call relation
  of the four mutually recursive functions (every chain of recursive calls that starts
  from it is finite), and it has an outcome, a panic or a string with the next state of
  the source.
\<close>

theorem generateFromRegexp_terminates:
  "generateFromRegexp_generateFromSubexpression_generateRepeated_generateFromSubs_dom
     (Inl (Inl (int63, limit, re, s)))
   \<and> (\<exists>r. generateFromRegexp int63 limit re s = r)"
  using generate_all_dom by blast

subsection \<open>Construction and failure\<close>

text \<open>
  C5. The constructor fails exactly when the parser rejects the pattern. Generation
  can fail: for the pattern \<^verbatim>\<open>a{11,}\<close> and the default cap 10, the
  \<^verbatim>\<open>OpRepeat\<close> case calls \<^verbatim>\<open>randInt(10 - 11 + 1)\<close>, and the remainder by
  zero panics, whatever the source draws.
\<close>

theorem NewXeger_a_11_panics:
  "((\<exists>e. NewXeger Parse src regex opts = Inl e) \<longleftrightarrow> (\<exists>e. Parse regex = Inl e))
   \<and> NewXeger (\<lambda>p. Inr re_a_11) (forced v) ''a{11,}'' []
       = Inr \<lparr>x_re = re_a_11, x_source = Some (forced v), x_limit = 10\<rparr>
   \<and> generated \<lparr>x_re = re_a_11, x_source = Some (forced v), x_limit = 10\<rparr> = Inl DivideByZero"
proof -
  have "(\<exists>e. NewXeger Parse src regex opts = Inl e) \<longleftrightarrow> (\<exists>e. Parse regex = Inl e)"
    by (cases "Parse regex") (simp_all add: NewXeger_def Let_def)
  moreover have "NewXeger (\<lambda>p. Inr re_a_11) (forced v) ''a{11,}'' []
       = Inr \<lparr>x_re = re_a_11, x_source = Some (forced v), x_limit = 10\<rparr>"
    by (simp add: NewXeger_def defaultLimit_def)
  moreover have "generated \<lparr>x_re = re_a_11, x_source = Some (forced v), x_limit = 10\<rparr>
       = Inl DivideByZero"
    by (simp add: generated_def Generate_def forced_def re_a_11_def generateFromRegexp.simps
        randInt_def wrap64_def)
  ultimately show ?thesis by blast
qed

text \<open>
  A generator with a nil source returns the string of a tree that needs no draw and
  panics at the first draw of any other.
\<close>

lemma Generate_nil_source:
  "generated \<lparr>x_re = Regexp OpLiteral [97] [] 0 0, x_source = None, x_limit = 10\<rparr> = Inr [97]"
  "generated \<lparr>x_re = re_a_star, x_source = None, x_limit = 10\<rparr> = Inl NilDereference"
  by (simp_all add: generated_def Generate_def generateFromRegexp_nil.simps re_a_star_def
      string_of_runes_def string_of_rune_def)

subsection \<open>Repetition counts\<close>

lemma repeatCount_within:
  assumes "0 < limit" and "limit < 2 ^ 63"
    and "int63 s = (v, s')" and "0 \<le> v" and "v < 2 ^ 63"
    and "re_Op re = OpStar \<or> re_Op re = OpPlus \<or> re_Op re = OpQuest \<or>
         (re_Op re = OpRepeat \<and> 0 \<le> re_Min re \<and>
          re_Min re \<le> (if re_Max re = - 1 then limit else re_Max re) \<and> re_Max re < 2 ^ 63)"
  shows "\<exists>c. repeatCount int63 limit re s = Inr (c, s') \<and> repetitions_within limit re c"
proof -
  consider (star) "re_Op re = OpStar" | (plus) "re_Op re = OpPlus" | (quest) "re_Op re = OpQuest"
    | (rep) "re_Op re = OpRepeat" "0 \<le> re_Min re"
        "re_Min re \<le> (if re_Max re = - 1 then limit else re_Max re)" "re_Max re < 2 ^ 63"
    using assms(6) by blast
  then show ?thesis
  proof cases
    case star
    from randInt_succ_bound [of int63 s v s' limit] assms(1-5)
    show ?thesis using star by (auto simp: repeatCount_def repetitions_within_def)
  next
    case plus
    have "randInt int63 limit s = Inr (v mod limit, s')"
      using assms by (intro randInt_Inr) simp_all
    moreover have "0 \<le> v mod limit" "v mod limit < limit" using assms by simp_all
    moreover then have "wrap64 (v mod limit + 1) = v mod limit + 1"
      using assms(2) by (intro wrap64_id) simp_all
    ultimately show ?thesis using plus by (simp add: repeatCount_def repetitions_within_def)
  next
    case quest
    have "randInt int63 2 s = Inr (v mod 2, s')"
      using assms by (intro randInt_Inr) simp_all
    moreover have "v mod 2 = 0 \<or> v mod 2 = 1" by presburger
    ultimately show ?thesis using quest by (auto simp: repeatCount_def repetitions_within_def)
  next
    case rep
    define mx where "mx = (if re_Max re = - 1 then limit else re_Max re)"
    have mx: "re_Min re \<le> mx" "mx < 2 ^ 63" using rep assms(2) by (auto simp: mx_def)
    then have w: "wrap64 (mx - re_Min re) = mx - re_Min re"
      using rep(2) by (intro wrap64_id) simp_all
    from randInt_succ_bound [of int63 s v s' "mx - re_Min re"] assms(3-5) mx rep(2)
    obtain r where r: "randInt int63 (wrap64 (mx - re_Min re + 1)) s = Inr (r, s')"
      "0 \<le> r" "r \<le> mx - re_Min re" by auto
    then have "wrap64 (r + re_Min re) = r + re_Min re"
      using mx rep(2) by (intro wrap64_id) simp_all
    then show ?thesis using rep(1) r w
      by (simp add: repeatCount_def repetitions_within_def Let_def mx_def [symmetric])
  qed
qed

text \<open>
  C4 as stated: a repeat with an unbounded maximum repeats its child between its minimum
  and the cap. For \<^verbatim>\<open>a{20,}\<close> and the cap 10 the code draws from
  \<^verbatim>\<open>randInt(10 - 20 + 1)\<close> and adds the minimum: with the draw 0 the child is
  generated 20 times, more than the cap.
\<close>

theorem a_20_exceeds_cap_counterexample:
  "repeatCount (Int63 (forced 0)) 10 re_a_20 () = Inr (20, ())
   \<and> \<not> repetitions_within 10 re_a_20 20
   \<and> generated \<lparr>x_re = re_a_20, x_source = Some (forced 0), x_limit = 10\<rparr> = Inr (replicate 20 97)"
  by (simp add: repeatCount_def repetitions_within_def generated_def Generate_def forced_def
      re_a_20_def generateFromRegexp.simps generateFromSubexpression.simps maxAlloc_def Let_def randInt_def
      go_rem_def wrap64_def string_of_runes_def string_of_rune_def eval_nat_numeral)

text \<open>
  C4, amended: with a cap in \<open>(0, maxAlloc]\<close> and a drawn value in \<open>[0, 2^63)\<close>, the
  count computed for a node with one child is within the bounds of its operator, and the
  child is generated exactly that many times: between 0 and the cap for a star, between 1
  and the cap for a plus, 0 or 1 times for a quest, between minimum and maximum for a
  bounded repeat whose maximum is at most \<open>maxAlloc\<close>, and between the minimum and
  the cap for an unbounded repeat whose minimum does not exceed the cap.
\<close>

theorem repetitions_bounded:
  assumes "0 < limit" and "limit \<le> maxAlloc"
    and "int63 s = (v, s')" and "0 \<le> v" and "v < 2 ^ 63"
    and "re_Op re = OpStar \<or> re_Op re = OpPlus \<or> re_Op re = OpQuest \<or>
         (re_Op re = OpRepeat \<and> 0 \<le> re_Min re \<and>
          re_Min re \<le> (if re_Max re = - 1 then limit else re_Max re) \<and> re_Max re \<le> maxAlloc)"
    and "length (re_Sub re) = 1"
  shows "\<exists>c. repeatCount int63 limit re s = Inr (c, s')
           \<and> repetitions_within limit re c
           \<and> generateFromRegexp int63 limit re s = generateRepeated int63 limit re (nat c) s'"
proof -
  have lim: "limit < 2 ^ 63" using assms(2) by (simp add: maxAlloc_def)
  have ops: "re_Op re \<in> {OpStar, OpPlus, OpQuest, OpRepeat}" using assms(6) by auto
  have cond: "re_Op re = OpStar \<or> re_Op re = OpPlus \<or> re_Op re = OpQuest \<or>
         (re_Op re = OpRepeat \<and> 0 \<le> re_Min re \<and>
          re_Min re \<le> (if re_Max re = - 1 then limit else re_Max re) \<and> re_Max re < 2 ^ 63)"
    using assms(6) by (auto simp: maxAlloc_def)
  from repeatCount_within [of limit int63 s v s' re] assms(1,3-5) lim cond
  obtain c where c: "repeatCount int63 limit re s = Inr (c, s')" "repetitions_within limit re c"
    by blast
  have c0: "0 \<le> c" using c(2) ops assms(6) by (auto simp: repetitions_within_def)
  have c1: "c \<le> maxAlloc"
    using c(2) ops assms(1,2,6) by (auto simp: repetitions_within_def maxAlloc_def split: if_splits)
  then have "c < 2 ^ 63" by (simp add: maxAlloc_def)
  then have "wrap64 (int (length (re_Sub re)) * c) = c"
    using assms(7) c0 by (simp add: wrap64_id)
  then have "generateFromSubexpression int63 limit re c s' = generateRepeated int63 limit re (nat c) s'"
    using c0 c1 by (simp add: generateFromSubexpression.simps Let_def)
  then show ?thesis using c generateFromRegexp_repeatCount [OF ops, of int63 limit s] by auto
qed

theorem repetitions_bounded_witness:
  "\<exists>c. repeatCount (Int63 (forced 13)) 10 re_a_star () = Inr (c, ())
     \<and> repetitions_within 10 re_a_star c
     \<and> generateFromRegexp (Int63 (forced 13)) 10 re_a_star ()
         = generateRepeated (Int63 (forced 13)) 10 re_a_star (nat c) ()"
  using repetitions_bounded [of 10 "Int63 (forced 13)" "()" 13 "()" re_a_star]
  by (simp add: forced_def re_a_star_def maxAlloc_def)

subsection \<open>Character classes\<close>

lemma range_total_nonneg: "ranges_from lb rs \<Longrightarrow> 0 \<le> range_total rs"
  by (induction lb rs rule: ranges_from.induct) auto

lemma range_total_le:
  "ranges_from lb rs \<Longrightarrow> lb \<le> 0x110000 \<Longrightarrow> lb + range_total rs \<le> 0x110000"
  by (induction lb rs rule: ranges_from.induct) auto

lemma class_sum_total:
  "ranges_from lb rs \<Longrightarrow> 0 \<le> sm \<Longrightarrow> sm \<le> lb \<Longrightarrow> class_sum rs sm = Inr (sm + range_total rs)"
proof (induction lb rs arbitrary: sm rule: ranges_from.induct)
  case (3 lb lo hi rs)
  then have b: "lb \<le> lo" "lo \<le> hi" "hi \<le> 0x10FFFF" "ranges_from (hi + 1) rs" by simp_all
  have w1: "wrap32 (hi - lo) = hi - lo" using b 3(3,4) by (intro wrap32_id) simp_all
  have w2: "wrap64 (1 + (hi - lo)) = 1 + (hi - lo)" using b 3(3,4) by (intro wrap64_id) simp_all
  have w3: "wrap64 (sm + (1 + (hi - lo))) = sm + (1 + (hi - lo))"
    using b 3(3,4) by (intro wrap64_id) simp_all
  have "class_sum rs (sm + (1 + (hi - lo))) = Inr (sm + (1 + (hi - lo)) + range_total rs)"
    using b 3(3,4) by (intro 3(1)) simp_all
  then show ?case by (simp add: w1 w2 w3)
qed simp_all

lemma class_pick_nth:
  "ranges_from lb rs \<Longrightarrow> 0 \<le> lb \<Longrightarrow> 0 \<le> i \<Longrightarrow> i < range_total rs \<Longrightarrow>
   class_pick rs i = Inr (string_of_rune (nth_code_point rs i))"
proof (induction lb rs arbitrary: i rule: ranges_from.induct)
  case (3 lb lo hi rs)
  then have b: "lb \<le> lo" "lo \<le> hi" "hi \<le> 0x10FFFF" "ranges_from (hi + 1) rs" by simp_all
  have t: "0 \<le> range_total rs" "hi + 1 + range_total rs \<le> 0x110000"
    using range_total_nonneg [OF b(4)] range_total_le [OF b(4)] b(3) by simp_all
  have w1: "wrap32 (hi - lo) = hi - lo" using b 3(3) by (intro wrap32_id) simp_all
  have w2: "wrap32 (hi - lo + 1) = hi - lo + 1" using b 3(3) by (intro wrap32_id) simp_all
  show ?case
  proof (cases "i \<le> hi - lo")
    case True
    then have "wrap32 (lo + i) = lo + i" using b 3(3,4) by (intro wrap32_id) simp_all
    then show ?thesis using True by (simp add: w1)
  next
    case False
    then have "wrap32 (i - (hi - lo + 1)) = i - (hi - lo + 1)"
      using b 3(3,4,5) t by (intro wrap32_id) simp_all
    moreover have "class_pick rs (i - (hi - lo + 1))
        = Inr (string_of_rune (nth_code_point rs (i - (hi - lo + 1))))"
      using b 3(3,4,5) False by (intro 3(1)) simp_all
    ultimately show ?thesis using False by (simp add: w1 w2)
  qed
qed simp_all

lemma nth_code_point_in_ranges:
  "ranges_from lb rs \<Longrightarrow> 0 \<le> i \<Longrightarrow> i < range_total rs \<Longrightarrow>
   in_ranges rs (nth_code_point rs i) \<and> lb \<le> nth_code_point rs i"
proof (induction lb rs arbitrary: i rule: ranges_from.induct)
  case (3 lb lo hi rs)
  show ?case
  proof (cases "i \<le> hi - lo")
    case True
    then show ?thesis using 3(2,3) by simp
  next
    case False
    then have "in_ranges rs (nth_code_point rs (i - (hi - lo + 1)))
        \<and> hi + 1 \<le> nth_code_point rs (i - (hi - lo + 1))"
      using 3(2,3,4) by (intro 3(1)) simp_all
    then show ?thesis using False 3(2) by simp
  qed
qed simp_all

lemma in_ranges_lower: "ranges_from lb rs \<Longrightarrow> in_ranges rs c \<Longrightarrow> lb \<le> c \<and> c \<le> 0x10FFFF"
  by (induction lb rs rule: ranges_from.induct) auto

lemma index_of_nth:
  "ranges_from lb rs \<Longrightarrow> 0 \<le> i \<Longrightarrow> i < range_total rs \<Longrightarrow> index_of rs (nth_code_point rs i) = i"
proof (induction lb rs arbitrary: i rule: ranges_from.induct)
  case (3 lb lo hi rs)
  show ?case
  proof (cases "i \<le> hi - lo")
    case True
    then show ?thesis using 3(2,3) by simp
  next
    case False
    let ?j = "i - (hi - lo + 1)"
    have r: "ranges_from (hi + 1) rs" using 3(2) by simp
    have j: "0 \<le> ?j" "?j < range_total rs" using False 3(4) by simp_all
    have "hi + 1 \<le> nth_code_point rs ?j" using nth_code_point_in_ranges [OF r j] by simp
    moreover have "index_of rs (nth_code_point rs ?j) = ?j" using r j by (rule 3(1))
    ultimately show ?thesis using False by simp
  qed
qed simp_all

lemma nth_index_of:
  "ranges_from lb rs \<Longrightarrow> in_ranges rs c \<Longrightarrow>
   nth_code_point rs (index_of rs c) = c \<and> 0 \<le> index_of rs c \<and> index_of rs c < range_total rs"
proof (induction lb rs rule: ranges_from.induct)
  case (3 lb lo hi rs)
  have r: "ranges_from (hi + 1) rs" using 3(2) by simp
  show ?case
  proof (cases "lo \<le> c \<and> c \<le> hi")
    case True
    then show ?thesis using 3(2) range_total_nonneg [OF r] by simp
  next
    case False
    then have "in_ranges rs c" using 3(3) by auto
    then have "nth_code_point rs (index_of rs c) = c \<and> 0 \<le> index_of rs c
        \<and> index_of rs c < range_total rs"
      using r by (intro 3(1)) simp_all
    then show ?thesis using False 3(2) by simp
  qed
qed simp_all

lemma nth_code_point_bij:
  assumes "ranges_from lb rs"
  shows "bij_betw (nth_code_point rs) {0 ..< range_total rs} {c. in_ranges rs c}"
proof (rule bij_betw_byWitness [where f' = "index_of rs"])
  show "\<forall>i\<in>{0..<range_total rs}. index_of rs (nth_code_point rs i) = i"
    using index_of_nth [OF assms] by simp
  show "\<forall>c\<in>{c. in_ranges rs c}. nth_code_point rs (index_of rs c) = c"
    using nth_index_of [OF assms] by simp
  show "nth_code_point rs ` {0..<range_total rs} \<subseteq> {c. in_ranges rs c}"
    using nth_code_point_in_ranges [OF assms] by auto
  show "index_of rs ` {c. in_ranges rs c} \<subseteq> {0..<range_total rs}"
    using nth_index_of [OF assms] by auto
qed

lemma range_total_pos: "ranges_from lb rs \<Longrightarrow> rs \<noteq> [] \<Longrightarrow> 0 < range_total rs"
  by (induction lb rs rule: ranges_from.induct) (use range_total_nonneg in force)+

lemma generateCharClass_nth:
  assumes "ranges_from 0 rs" and "rs \<noteq> []" and "int63 s = (v, s')" and "0 \<le> v"
  shows "generateCharClass int63 rs s
           = Inr (string_of_rune (nth_code_point rs (v mod range_total rs)), s')"
    and "in_ranges rs (nth_code_point rs (v mod range_total rs))"
proof -
  let ?n = "range_total rs"
  let ?i = "v mod ?n"
  have n: "0 < ?n" using assms(1,2) by (rule range_total_pos)
  have n': "?n \<le> 0x110000" using range_total_le [OF assms(1)] by simp
  have sm: "class_sum rs 0 = Inr ?n" using class_sum_total [OF assms(1), of 0] by simp
  have i: "0 \<le> ?i" "?i < ?n" using n by simp_all
  have rnd: "randInt int63 ?n s = Inr (?i, s')" using assms(3,4) n by (rule randInt_Inr)
  have w: "wrap32 ?i = ?i" using i n' by (intro wrap32_id) simp_all
  show "in_ranges rs (nth_code_point rs ?i)" using nth_code_point_in_ranges [OF assms(1) i] by simp
  have "class_pick rs ?i = Inr (string_of_rune (nth_code_point rs ?i))"
    using class_pick_nth [OF assms(1) _ i] by simp
  then show "generateCharClass int63 rs s = Inr (string_of_rune (nth_code_point rs ?i), s')"
    by (simp add: generateCharClass_def sm rnd w)
qed

lemma string_of_rune_code_point:
  "0 \<le> c \<Longrightarrow> c \<le> 0x10FFFF \<Longrightarrow>
   string_of_rune c = (if 0xD800 \<le> c \<and> c \<le> 0xDFFF then [0xFFFD] else [c])"
  by (auto simp: string_of_rune_def)

lemma surrogate_free_in_ranges:
  "surrogate_free rs \<Longrightarrow> in_ranges rs c \<Longrightarrow> \<not> (0xD800 \<le> c \<and> c \<le> 0xDFFF)"
  by (induction rs c rule: in_ranges.induct) auto

lemma string_of_rune_no_surrogate:
  "ranges_from 0 rs \<Longrightarrow> surrogate_free rs \<Longrightarrow> in_ranges rs c \<Longrightarrow> string_of_rune c = [c]"
proof -
  assume r: "ranges_from 0 rs" and sf: "surrogate_free rs" and c: "in_ranges rs c"
  have "0 \<le> c" "c \<le> 0x10FFFF" using in_ranges_lower [OF r c] by simp_all
  then have "string_of_rune c = (if 0xD800 \<le> c \<and> c \<le> 0xDFFF then [0xFFFD] else [c])"
    by (rule string_of_rune_code_point)
  moreover have "\<not> (0xD800 \<le> c \<and> c \<le> 0xDFFF)" using sf c by (rule surrogate_free_in_ranges)
  ultimately show ?thesis by simp
qed

text \<open>
  Where the class has no surrogate, the loop does what C9 says: for an index in
  \<open>[0, sum)\<close> it returns, from inside, a code point within one of the ranges, never
  the empty string of the fallback after the loop.
\<close>

lemma class_pick_returns:
  assumes "normalized rs" and "surrogate_free rs" and "0 \<le> i" and "i < range_total rs"
  shows "\<exists>c. in_ranges rs c \<and> class_pick rs i = Inr [c]"
proof -
  let ?c = "nth_code_point rs i"
  have r: "ranges_from 0 rs" using assms(1) by (simp add: normalized_def)
  have c: "in_ranges rs ?c" using nth_code_point_in_ranges [OF r assms(3,4)] by simp
  have "class_pick rs i = Inr (string_of_rune ?c)"
    using class_pick_nth [OF r _ assms(3,4)] by simp
  then have "class_pick rs i = Inr [?c]"
    using string_of_rune_no_surrogate [OF r assms(2) c] by simp
  then show ?thesis using c by blast
qed

text \<open>
  C9. Whenever the index lies in \<open>[0, sum)\<close> the loop should return a character from
  within one of the ranges. The code misses the surrogates: for the class of
  \<^verbatim>\<open>a-z\<close> and the high surrogates and the index 26 (below the sum 1050) the loop
  selects U+D800, and the conversion of this rune to a string returns U+FFFD, which is
  in no range of the class.
\<close>

theorem class_pick_surrogate_replaced:
  "normalized [0x61, 0x7A, 0xD800, 0xDBFF] \<and> 26 < range_total [0x61, 0x7A, 0xD800, 0xDBFF]
   \<and> class_pick [0x61, 0x7A, 0xD800, 0xDBFF] 26 = Inr [0xFFFD]
   \<and> \<not> in_ranges [0x61, 0x7A, 0xD800, 0xDBFF] 0xFFFD"
  by (simp add: normalized_def wrap32_def string_of_rune_def)

text \<open>
  Where the class has no surrogate, generation does what C3 says: the first loop computes
  \<open>sum\<close>, the total of \<open>high - low + 1\<close> over the ranges; the index is the drawn
  value modulo \<open>sum\<close>; the walk emits the code point \<open>low + index\<close> of the range
  the remaining index falls in, which lies inside one of the ranges; and the walk is a
  bijection from \<open>[0, sum)\<close> to the code points of the class, so that each is emitted
  for exactly one index.
\<close>

lemma generateCharClass_uniform:
  assumes "normalized rs" and "rs \<noteq> []" and "surrogate_free rs"
    and "int63 s = (v, s')" and "0 \<le> v" and "v < 2 ^ 63"
  shows "class_sum rs 0 = Inr (range_total rs)
       \<and> in_ranges rs (nth_code_point rs (v mod range_total rs))
       \<and> generateCharClass int63 rs s = Inr ([nth_code_point rs (v mod range_total rs)], s')
       \<and> bij_betw (nth_code_point rs) {0 ..< range_total rs} {c. in_ranges rs c}"
proof -
  let ?c = "nth_code_point rs (v mod range_total rs)"
  have r: "ranges_from 0 rs" using assms(1) by (simp add: normalized_def)
  have sm: "class_sum rs 0 = Inr (range_total rs)" using class_sum_total [OF r, of 0] by simp
  have c: "in_ranges rs ?c"
    using generateCharClass_nth(2) [of rs int63 s v s'] r assms(2,4,5) by simp
  have "generateCharClass int63 rs s = Inr ([?c], s')"
    using generateCharClass_nth(1) [of rs int63 s v s'] r assms(2,4,5)
      string_of_rune_no_surrogate [OF r assms(3) c] by simp
  then show ?thesis using sm c nth_code_point_bij [OF r] by simp
qed

text \<open>
  C3. The emitted code point should be \<open>low + index\<close>, inside one of the class's
  ranges, and each code point of the class equally likely. The code misses the
  surrogates. For the class of all surrogates every draw emits U+FFFD, which is outside
  the class. For the class of \<^verbatim>\<open>[^a]\<close>, the draws 0xD7FF (the index of U+D800) and
  0xFFFC (the index of U+FFFD) both emit U+FFFD.
\<close>

theorem generateCharClass_surrogate_replaced:
  "normalized [0xD800, 0xDFFF]
   \<and> generateCharClass (Int63 (forced 0)) [0xD800, 0xDFFF] () = Inr ([0xFFFD], ())
   \<and> \<not> in_ranges [0xD800, 0xDFFF] 0xFFFD
   \<and> normalized [0, 0x60, 0x62, 0x10FFFF]
   \<and> generateCharClass (Int63 (forced 0xD7FF)) [0, 0x60, 0x62, 0x10FFFF] () = Inr ([0xFFFD], ())
   \<and> generateCharClass (Int63 (forced 0xFFFC)) [0, 0x60, 0x62, 0x10FFFF] () = Inr ([0xFFFD], ())"
  by (simp add: normalized_def generateCharClass_def forced_def randInt_def go_rem_def
      wrap32_def wrap64_def string_of_rune_def)

subsection \<open>Agreement with the earlier version\<close>

lemma randInt_old_eq: "randInt_old src n s = randInt src n s"
  by (simp add: randInt_old_def randInt_def)

lemma generate_old_eq:
  "limit = 10 \<Longrightarrow> generateFromRegexp int63 limit re s = generateFromRegexp_old int63 re s"
  "limit = 10 \<Longrightarrow> generateFromSubexpression int63 limit re count s
      = generateFromSubexpression_old int63 re count s"
  "limit = 10 \<Longrightarrow> generateRepeated int63 limit re n s = generateRepeated_old int63 re n s"
  "limit = 10 \<Longrightarrow> generateFromSubs int63 limit subs s = generateFromSubs_old int63 subs s"
proof (induction int63 limit re s and int63 limit re count s and int63 limit re n s
    and int63 limit subs s
    rule: generateFromRegexp_generateFromSubexpression_generateRepeated_generateFromSubs.induct)
  case (1 int63 limit re s)
  show ?case
    unfolding generateFromRegexp.simps [of int63 limit re s]
      generateFromRegexp_old.simps [of int63 re s]
    using 1
    by (cases "re_Op re")
       (auto simp add: randInt_old_eq limit_old_def generateCharClass_old_def generateCharClass_def
          generateFromTable_old_def generateFromTable_def Let_def
          split: sum.split prod.split)
next
  case (2 int63 limit re count s)
  then show ?case
    by (simp add: generateFromSubexpression.simps generateFromSubexpression_old.simps Let_def)
next
  case (4 int63 limit re n s)
  then show ?case by (simp split: sum.split prod.split)
next
  case (6 int63 limit sub subs s)
  then show ?case by (simp split: sum.split prod.split)
qed simp_all

lemma fold_apply_option_re: "x_re (fold apply_option opts x) = x_re x"
proof (induction opts arbitrary: x)
  case Nil
  show ?case by simp
next
  case (Cons opt opts)
  then show ?case by (cases opt) simp_all
qed

lemma NewXeger_re:
  assumes "NewXeger Parse dsrc regex opts = Inr x"
  shows "Parse regex = Inr (x_re x)"
proof (cases "Parse regex")
  case (Inl e)
  then show ?thesis using assms by (simp add: NewXeger_def)
next
  case (Inr re)
  then have "x_re x = re"
    using assms by (auto simp: NewXeger_def Let_def fold_apply_option_re split: if_splits)
  then show ?thesis using Inr by simp
qed

text \<open>
  C10. A \<^verbatim>\<open>Xeger\<close> that the constructor returns with the default cap 10 (as it
  does when no option sets a positive limit) generates as the earlier version does on the
  same pattern, when the global source of that version is the generator's source in the
  same state: \<^verbatim>\<open>Generate()\<close> ends with the same panic, or with the same string and
  the same next state of the source.
\<close>

theorem default_Xeger_agrees_with_old:
  assumes "NewXeger Parse dsrc regex opts = Inr x"
    and "x_limit x = defaultLimit" and "x_source x = Some src"
    and "NewXeger_old Parse regex = Inr y"
  shows "Generate x = map_sum id (\<lambda>(str, s'). (str, x\<lparr>x_source := Some (src\<lparr>state := s'\<rparr>)\<rparr>))
                        (Generate_old (Int63 src) y (state src))"
proof -
  have "Parse regex = Inr (x_re x)" using assms(1) by (rule NewXeger_re)
  then have y: "re_old y = x_re x" using assms(4) by (auto simp: NewXeger_old_def)
  have "generateFromRegexp (Int63 src) (x_limit x) (x_re x) (state src)
      = generateFromRegexp_old (Int63 src) (x_re x) (state src)"
    using assms(2) by (intro generate_old_eq) (simp add: defaultLimit_def)
  then show ?thesis
    using assms(3) y by (simp add: Generate_def Generate_old_def split: sum.split prod.split)
qed

theorem default_Xeger_agrees_with_old_witness:
  "Generate \<lparr>x_re = re_a_star, x_source = Some (forced 13), x_limit = 10\<rparr>
      = map_sum id (\<lambda>(str, s'). (str, \<lparr>x_re = re_a_star, x_source = Some (forced 13), x_limit = 10\<rparr>
                                          \<lparr>x_source := Some ((forced 13)\<lparr>state := s'\<rparr>)\<rparr>))
          (Generate_old (Int63 (forced 13)) \<lparr>re_old = re_a_star\<rparr> (state (forced 13)))"
  using default_Xeger_agrees_with_old [of "\<lambda>p. Inr re_a_star :: unit + Regexp" "forced 13" "''a*''" "[]"
      "\<lparr>x_re = re_a_star, x_source = Some (forced 13), x_limit = 10\<rparr>" "forced 13"
      "\<lparr>re_old = re_a_star\<rparr>"]
  by (simp add: NewXeger_def NewXeger_old_def defaultLimit_def)

subsection \<open>Determinism\<close>

lemma same_sequence_step:
  assumes "same_sequence f s g t"
  shows "fst (f s) = fst (g t)" and "same_sequence f (snd (f s)) g (snd (g t))"
proof -
  from assms have "draws f s 0 = draws g t 0" unfolding same_sequence_def by blast
  then show "fst (f s) = fst (g t)" by simp
  from assms have "\<And>n. draws f s (Suc n) = draws g t (Suc n)" unfolding same_sequence_def by blast
  then show "same_sequence f (snd (f s)) g (snd (g t))" by (simp add: same_sequence_def)
qed

lemma same_outcome_Inr [simp]:
  "same_outcome f g (Inr (b, s)) (Inr (b', t)) \<longleftrightarrow> b = b' \<and> same_sequence f s g t"
  by (auto simp: same_outcome_def)

lemma same_outcome_Inl [simp]: "same_outcome f g (Inl e) (Inl e') \<longleftrightarrow> e = e'"
  by (auto simp: same_outcome_def)

lemma same_outcome_bind:
  assumes "same_outcome f g r1 r2"
    and "\<And>b s1 s2. r1 = Inr (b, s1) \<Longrightarrow> r2 = Inr (b, s2) \<Longrightarrow> same_sequence f s1 g s2
           \<Longrightarrow> same_outcome f g (k1 b s1) (k2 b s2)"
  shows "same_outcome f g (case r1 of Inl e \<Rightarrow> Inl e | Inr (b, s') \<Rightarrow> k1 b s')
                          (case r2 of Inl e \<Rightarrow> Inl e | Inr (b, s') \<Rightarrow> k2 b s')"
proof (cases r1)
  case (Inl e)
  then show ?thesis using assms(1) by (simp add: same_outcome_def)
next
  case (Inr p)
  obtain b s1 where p: "p = (b, s1)" by (cases p)
  then obtain s2 where "r2 = Inr (b, s2)" "same_sequence f s1 g s2"
    using assms(1) Inr by (auto simp: same_outcome_def)
  then show ?thesis using assms(2) [of b s1 s2] Inr p by simp
qed

lemma randInt_same:
  assumes "same_sequence f s g t"
  shows "same_outcome f g (randInt f n s) (randInt g n t)"
proof -
  obtain v s' where fs: "f s = (v, s')" by (cases "f s")
  obtain w t' where gt: "g t = (w, t')" by (cases "g t")
  from same_sequence_step [OF assms] fs gt have "v = w" "same_sequence f s' g t'" by simp_all
  then show ?thesis by (simp add: randInt_def fs gt)
qed

lemma generateCharClass_same:
  assumes "same_sequence f s g t"
  shows "same_outcome f g (generateCharClass f rune s) (generateCharClass g rune t)"
proof (cases "class_sum rune 0")
  case (Inl e)
  then show ?thesis by (simp add: generateCharClass_def)
next
  case (Inr sm)
  have "same_outcome f g
     (case randInt f sm s of Inl e \<Rightarrow> Inl e
      | Inr (r, s') \<Rightarrow> (case class_pick rune (wrap32 r) of Inl e \<Rightarrow> Inl e | Inr str \<Rightarrow> Inr (str, s')))
     (case randInt g sm t of Inl e \<Rightarrow> Inl e
      | Inr (r, s') \<Rightarrow> (case class_pick rune (wrap32 r) of Inl e \<Rightarrow> Inl e | Inr str \<Rightarrow> Inr (str, s')))"
    by (rule same_outcome_bind [OF randInt_same [OF assms]]) (simp split: sum.split)
  then show ?thesis by (simp add: generateCharClass_def Inr)
qed

lemma generateFromTable_same:
  assumes "same_sequence f s g t"
  shows "same_outcome f g (generateFromTable f table s) (generateFromTable g table t)"
  unfolding generateFromTable_def
  by (rule same_outcome_bind [OF randInt_same [OF assms]]) simp


lemma generate_same:
  "same_sequence f s g t \<Longrightarrow>
     same_outcome f g (generateFromRegexp f limit re s) (generateFromRegexp g limit re t)"
  "same_sequence f s g t \<Longrightarrow>
     same_outcome f g (generateFromSubexpression f limit re count s)
       (generateFromSubexpression g limit re count t)"
  "same_sequence f s g t \<Longrightarrow>
     same_outcome f g (generateRepeated f limit re n s) (generateRepeated g limit re n t)"
  "same_sequence f s g t \<Longrightarrow>
     same_outcome f g (generateFromSubs f limit subs s) (generateFromSubs g limit subs t)"
proof (induction f limit re s and f limit re count s and f limit re n s and f limit subs s
    arbitrary: t and t and t and t
    rule: generateFromRegexp_generateFromSubexpression_generateRepeated_generateFromSubs.induct)
  case (1 f limit re s)
  then show ?case
    by (cases "re_Op re")
       (auto simp: generateFromRegexp.simps [of _ limit re] Let_def
          intro!: same_outcome_bind randInt_same generateCharClass_same generateFromTable_same)
next
  case (2 f limit re count s)
  then show ?case by (simp add: generateFromSubexpression.simps Let_def)
next
  case (3 f limit re s)
  then show ?case by simp
next
  case (4 f limit re n s)
  show ?case
    unfolding generateRepeated.simps
  proof (rule same_outcome_bind)
    show "same_outcome f g (generateFromSubs f limit (re_Sub re) s) (generateFromSubs g limit (re_Sub re) t)"
      using 4(3) by (rule 4(1))
  next
    fix b s1 s2
    assume a: "generateFromSubs f limit (re_Sub re) s = Inr (b, s1)" "same_sequence f s1 g s2"
    have "same_outcome f g (generateRepeated f limit re n s1) (generateRepeated g limit re n s2)"
      using a by (intro 4(2)) simp_all
    then show "same_outcome f g
        (case generateRepeated f limit re n s1 of Inl e \<Rightarrow> Inl e | Inr (b', s'') \<Rightarrow> Inr (b @ b', s''))
        (case generateRepeated g limit re n s2 of Inl e \<Rightarrow> Inl e | Inr (b', s'') \<Rightarrow> Inr (b @ b', s''))"
      by (rule same_outcome_bind) simp
  qed
next
  case (5 f limit s)
  then show ?case by simp
next
  case (6 f limit sub subs s)
  show ?case
    unfolding generateFromSubs.simps
  proof (rule same_outcome_bind)
    show "same_outcome f g (generateFromRegexp f limit sub s) (generateFromRegexp g limit sub t)"
      using 6(3) by (rule 6(1))
  next
    fix b s1 s2
    assume a: "generateFromRegexp f limit sub s = Inr (b, s1)" "same_sequence f s1 g s2"
    have "same_outcome f g (generateFromSubs f limit subs s1) (generateFromSubs g limit subs s2)"
      using a by (intro 6(2)) simp_all
    then show "same_outcome f g
        (case generateFromSubs f limit subs s1 of Inl e \<Rightarrow> Inl e | Inr (b', s'') \<Rightarrow> Inr (b @ b', s''))
        (case generateFromSubs g limit subs s2 of Inl e \<Rightarrow> Inl e | Inr (b', s'') \<Rightarrow> Inr (b @ b', s''))"
      by (rule same_outcome_bind) simp
  qed
qed


lemma draws_forced: "draws (\<lambda>s::unit. (v, s)) u n = v"
  by (induction n) simp_all

lemma draws_counter: "draws (\<lambda>k::nat. (v, Suc k)) k n = v"
  by (induction n arbitrary: k) simp_all

text \<open>
  C6. Two generators with the same tree and the same cap, whose sources (of any two
  implementations) return the same sequence of values, produce the same outcome of
  \<^verbatim>\<open>Generate()\<close>: the same string, or the same panic.
\<close>

theorem Generate_deterministic:
  assumes "x_re x = x_re y" and "x_limit x = x_limit y"
    and "x_source x = Some src1" and "x_source y = Some src2"
    and "same_sequence (Int63 src1) (state src1) (Int63 src2) (state src2)"
  shows "generated x = generated y"
proof -
  have "same_outcome (Int63 src1) (Int63 src2)
      (generateFromRegexp (Int63 src1) (x_limit x) (x_re x) (state src1))
      (generateFromRegexp (Int63 src2) (x_limit x) (x_re x) (state src2))"
    using assms(5) by (rule generate_same)
  then show ?thesis
    using assms(1-4)
    by (auto simp: generated_def Generate_def same_outcome_def split: sum.splits prod.splits)
qed

theorem Generate_deterministic_witness:
  "generated \<lparr>x_re = re_a_2_4, x_source = Some (forced 2), x_limit = 10\<rparr>
   = generated \<lparr>x_re = re_a_2_4, x_source = Some \<lparr>Int63 = (\<lambda>k::nat. (2, Suc k)), state = 0\<rparr>,
        x_limit = 10\<rparr>"
  using Generate_deterministic [of "\<lparr>x_re = re_a_2_4, x_source = Some (forced 2), x_limit = 10\<rparr>"
      "\<lparr>x_re = re_a_2_4, x_source = Some \<lparr>Int63 = (\<lambda>k::nat. (2, Suc k)), state = 0\<rparr>, x_limit = 10\<rparr>"
      "forced 2" "\<lparr>Int63 = (\<lambda>k::nat. (2, Suc k)), state = 0\<rparr>"]
  by (simp add: same_sequence_def forced_def draws_forced draws_counter)


subsection \<open>Match soundness\<close>




lemma matches_loop_one: "matches_loop subs (Suc 0) pre s post \<Longrightarrow> matches_seq subs pre s post"
proof -
  assume "matches_loop subs (Suc 0) pre s post"
  then obtain s1 s2 where s: "s = s1 @ s2" "matches_seq subs pre s1 (s2 @ post)"
      "matches_loop subs 0 (pre @ s1) s2 post"
    by (rule matches_loop.cases) auto
  from s(3) have "s2 = []" by (rule matches_loop.cases) auto
  then show ?thesis using s by simp
qed































end
